theory Spec2Isabelle
  imports Main
begin

section \<open>Data model of the alarm-series screen\<close>

text \<open>
  The interfaces \<open>AlarmStep\<close> and \<open>AlarmSeries\<close> of \<open>src/app/(tabs)/series.tsx\<close>.
  The fields \<open>id\<close>, \<open>duration\<close>, \<open>name\<close> and \<open>steps\<close> carry a prefix, since both
  interfaces have an \<open>id\<close> and a \<open>name\<close>. Durations and clock readings are JavaScript
  numbers that only ever hold whole milliseconds here; they are integers.
\<close>

record AlarmStep =
  step_id :: string
  step_duration :: int
  step_name :: string

record AlarmSeries =
  series_id :: string
  series_name :: string
  series_steps :: "AlarmStep list"

text \<open>\<open>Partial<AlarmStep>\<close>: each field is present or absent.\<close>

record StepUpdates =
  upd_id :: "string option"
  upd_duration :: "int option"
  upd_name :: "string option"

text \<open>The object spread \<open>{ ...step, ...updates }\<close>: a present field overrides.\<close>

definition spread :: "AlarmStep \<Rightarrow> StepUpdates \<Rightarrow> AlarmStep" where
  "spread step updates =
     \<lparr>step_id = (case upd_id updates of None \<Rightarrow> step_id step | Some v \<Rightarrow> v),
      step_duration = (case upd_duration updates of None \<Rightarrow> step_duration step | Some v \<Rightarrow> v),
      step_name = (case upd_name updates of None \<Rightarrow> step_name step | Some v \<Rightarrow> v)\<rparr>"

subsection \<open>The storage slot\<close>

text \<open>
  The slot \<open>STORAGE_KEY\<close> of AsyncStorage holds a text or nothing. A text is represented
  by what \<open>JSON.parse\<close> makes of it: \<open>JsonText v\<close> is a text that parses to the value
  \<open>v\<close>, \<open>OtherText s\<close> is a text \<open>s\<close> on which \<open>JSON.parse\<close> throws. Numbers are the
  integers, the only numbers the screen writes.
\<close>

datatype json =
    JNull
  | JBool bool
  | JNumber int
  | JString string
  | JArray "json list"
  | JObject "(string \<times> json) list"

datatype item = JsonText json | OtherText string

definition step_json :: "AlarmStep \<Rightarrow> json" where
  "step_json s =
     JObject [(''id'', JString (step_id s)), (''duration'', JNumber (step_duration s)),
              (''name'', JString (step_name s))]"

definition series_json :: "AlarmSeries \<Rightarrow> json" where
  "series_json s =
     JObject [(''id'', JString (series_id s)), (''name'', JString (series_name s)),
              (''steps'', JArray (map step_json (series_steps s)))]"

definition JSON_stringify :: "AlarmSeries list \<Rightarrow> item" where
  "JSON_stringify xs = JsonText (JArray (map series_json xs))"

text \<open>\<open>JSON.parse\<close>: \<open>None\<close> is the thrown SyntaxError.\<close>

fun JSON_parse :: "item \<Rightarrow> json option" where
  "JSON_parse (JsonText v) = Some v"
| "JSON_parse (OtherText s) = None"

text \<open>The truthiness test \<open>if (stored)\<close> on a text: only the empty text is falsy
  (\<open>null\<close>, the empty slot, is the \<open>None\<close> case of \<open>loadSeries\<close>).\<close>

fun truthy :: "item \<Rightarrow> bool" where
  "truthy (OtherText s) = (s \<noteq> [])"
| "truthy (JsonText v) = True"

text \<open>
  What the interfaces \<open>AlarmStep\<close> and \<open>AlarmSeries\<close> ask of a parsed value: the
  value is a collection when it is an array of series objects whose steps are step objects.
\<close>

definition as_step :: "json \<Rightarrow> AlarmStep option" where
  "as_step v =
     (case v of
        JObject kv \<Rightarrow>
          (case (map_of kv ''id'', map_of kv ''duration'', map_of kv ''name'') of
             (Some (JString i), Some (JNumber d), Some (JString n)) \<Rightarrow>
               Some \<lparr>step_id = i, step_duration = d, step_name = n\<rparr>
           | _ \<Rightarrow> None)
      | _ \<Rightarrow> None)"

definition as_series :: "json \<Rightarrow> AlarmSeries option" where
  "as_series v =
     (case v of
        JObject kv \<Rightarrow>
          (case (map_of kv ''id'', map_of kv ''name'', map_of kv ''steps'') of
             (Some (JString i), Some (JString n), Some (JArray js)) \<Rightarrow>
               (case those (map as_step js) of
                  Some ss \<Rightarrow> Some \<lparr>series_id = i, series_name = n, series_steps = ss\<rparr>
                | None \<Rightarrow> None)
           | _ \<Rightarrow> None)
      | _ \<Rightarrow> None)"

definition as_collection :: "json \<Rightarrow> AlarmSeries list option" where
  "as_collection v = (case v of JArray js \<Rightarrow> those (map as_series js) | _ \<Rightarrow> None)"

subsection \<open>Effects and the state of \<open>SeriesScreen\<close>\<close>

text \<open>
  What the handlers do to the outside: \<open>Alert.alert(title, message)\<close> and a call of
  \<open>playAlarm()\<close> (one notification: a haptic pulse, repeated once after 500 ms).
  Console logging is left out.
\<close>

datatype effect = Alert string string | PlayAlarm

text \<open>
  JavaScript compares objects by identity, and the code never changes an object in place:
  every edit builds new objects. The records above are the fields of an object; where the
  object lives is kept beside them. \<open>SeriesAddr\<close> is the address of a series object
  together with the addresses of the step objects in its \<open>steps\<close> array, in order.
\<close>

record SeriesAddr =
  series_at :: nat
  steps_at :: "nat list"

text \<open>The address of the \<open>i\<close>-th step object. (A list of addresses shorter than the
  array it describes does not arise; 0 stands in.)\<close>

definition addrAt :: "nat list \<Rightarrow> nat \<Rightarrow> nat" where
  "addrAt as i = (if i < length as then as ! i else 0)"

text \<open>
  \<open>Object.is\<close> on two cells that hold an object or \<open>null\<close>: both are \<open>null\<close>, or both
  hold the object at the same address. One address holds one object, so the fields agree as
  well; the comparison says so, and nothing has to be assumed about the addresses.
\<close>

definition sameObject :: "'a option \<Rightarrow> nat \<Rightarrow> 'a option \<Rightarrow> nat \<Rightarrow> bool" where
  "sameObject x a y b =
     (case (x, y) of
        (None, None) \<Rightarrow> True
      | (Some u, Some v) \<Rightarrow> a = b \<and> u = v
      | _ \<Rightarrow> False)"

text \<open>
  The instance of the timer \<open>useEffect\<close> that is in force: the values of its dependencies
  \<open>[isPlaying, currentStep, currentSeries]\<close> when it ran (the objects with their
  addresses), which its interval callback closes over, and \<open>startTime\<close> when its
  \<open>setInterval\<close> is still scheduled (\<open>None\<close> when the effect made no interval, or the
  callback cleared it).
\<close>

record TimerEffect =
  dep_isPlaying :: bool
  dep_currentStep :: "AlarmStep option"
  dep_currentStepAt :: nat
  dep_currentSeries :: "AlarmSeries option"
  dep_currentSeriesAt :: SeriesAddr
  startTime :: "int option"

text \<open>
  The \<open>useState\<close> cells of the component, the storage slot and the timer effect.
  \<open>currentSeriesAt\<close> and \<open>currentStepAt\<close> are the addresses of the objects in the cells
  \<open>currentSeries\<close> and \<open>currentStep\<close>; they mean nothing while the cell holds \<open>null\<close>.
  (\<open>sound\<close>, \<open>isDeleting\<close> and \<open>progressAnim\<close> are never read by the handlers below.)
\<close>

record Screen =
  series :: "AlarmSeries list"
  currentSeries :: "AlarmSeries option"
  currentSeriesAt :: SeriesAddr
  isEditing :: bool
  isPlaying :: bool
  currentStep :: "AlarmStep option"
  currentStepAt :: nat
  remainingTime :: int
  modalVisible :: bool
  storage :: "item option"
  timerEffect :: TimerEffect

text \<open>
  A new object lives at an address that no cell and no dependency of the timer effect
  holds: the successor of the largest address in use. An edit that builds several objects
  takes the following addresses.
\<close>

definition addrsInUse :: "Screen \<Rightarrow> nat list" where
  "addrsInUse st =
     series_at (currentSeriesAt st) # currentStepAt st # steps_at (currentSeriesAt st)
     @ series_at (dep_currentSeriesAt (timerEffect st)) # dep_currentStepAt (timerEffect st)
       # steps_at (dep_currentSeriesAt (timerEffect st))"

definition freshAddr :: "Screen \<Rightarrow> nat" where
  "freshAddr st = Suc (fold max (addrsInUse st) 0)"

section \<open>Series store\<close>

text \<open>
  \<open>loadSeries\<close> reads the slot and calls \<open>setSeries(parsed)\<close> with whatever
  \<open>JSON.parse\<close> returned: \<open>Installed v\<close>. The cell \<open>series\<close> is typed
  \<open>AlarmSeries[]\<close> but nothing checks \<open>parsed\<close>, so the outcome carries the parsed value
  itself. \<open>Untouched\<close>: the slot is empty, nothing is set. \<open>Failed fx\<close>: the \<open>catch\<close>
  branch, nothing is set. \<open>AsyncStorage.getItem\<close> is taken to resolve.
\<close>

datatype load_outcome = Untouched | Installed json | Failed "effect list"

definition loadSeries :: "item option \<Rightarrow> load_outcome" where
  "loadSeries stored =
     (case stored of
        None \<Rightarrow> Untouched
      | Some text \<Rightarrow>
          if truthy text then
            (case JSON_parse text of
               Some parsed \<Rightarrow> Installed parsed
             | None \<Rightarrow> Failed [Alert ''Error'' ''Failed to load series. Please restart the app.''])
          else Untouched)"

text \<open>
  \<open>saveSeries\<close>. The flag \<open>ok\<close> says whether \<open>AsyncStorage.setItem\<close> resolves; when it
  rejects, the slot keeps its content and control goes to the \<open>catch\<close> branch.
\<close>

definition saveSeries :: "bool \<Rightarrow> AlarmSeries list \<Rightarrow> Screen \<Rightarrow> Screen \<times> effect list" where
  "saveSeries ok newSeries st =
     (if ok then (st\<lparr>storage := Some (JSON_stringify newSeries), series := newSeries\<rparr>, [])
      else (st, [Alert ''Error'' ''Failed to save series. Please try again.'']))"

section \<open>Series editor\<close>

text \<open>\<open>Number.prototype.toString\<close> on a whole number: its decimal digits.\<close>

fun digits :: "nat \<Rightarrow> string" where
  "digits n = (if n < 10 then [''0123456789'' ! n] else digits (n div 10) @ [''0123456789'' ! (n mod 10)])"

declare digits.simps [simp del]

definition toString :: "int \<Rightarrow> string" where
  "toString i = (if i < 0 then CHR ''-'' # digits (nat (- i)) else digits (nat i))"

text \<open>
  \<open>handleAddStep\<close>; \<open>now\<close> is the reading of \<open>Date.now()\<close>. The new step and the new
  series object are new objects; the steps already there stay the objects they were.
\<close>

definition handleAddStep :: "int \<Rightarrow> Screen \<Rightarrow> Screen" where
  "handleAddStep now st =
     (case currentSeries st of
        None \<Rightarrow> st
      | Some cs \<Rightarrow>
          (let newStep = \<lparr>step_id = toString now, step_duration = 60000,
                          step_name = ''Step '' @ toString (int (length (series_steps cs)) + 1)\<rparr>
           in st\<lparr>currentSeries := Some (cs\<lparr>series_steps := series_steps cs @ [newStep]\<rparr>),
                 currentSeriesAt :=
                   \<lparr>series_at = Suc (freshAddr st),
                    steps_at = steps_at (currentSeriesAt st) @ [freshAddr st]\<rparr>\<rparr>))"

text \<open>\<open>handleEditSeries\<close> puts the series object it is given, which lives at \<open>a\<close>, into
  the cell.\<close>

definition handleEditSeries :: "AlarmSeries \<Rightarrow> SeriesAddr \<Rightarrow> Screen \<Rightarrow> Screen" where
  "handleEditSeries s a st = st\<lparr>currentSeries := Some s, currentSeriesAt := a, modalVisible := True\<rparr>"


text \<open>
  \<open>handleUpdateStep\<close>: the series object is new, and so is every step object that the
  spread rebuilds; the other steps stay the objects they were.
\<close>

definition handleUpdateStep :: "string \<Rightarrow> StepUpdates \<Rightarrow> Screen \<Rightarrow> Screen" where
  "handleUpdateStep stepId updates st =
     (case currentSeries st of
        None \<Rightarrow> st
      | Some cs \<Rightarrow>
          st\<lparr>currentSeries :=
               Some (cs\<lparr>series_steps :=
                          map (\<lambda>step. if step_id step = stepId then spread step updates else step)
                              (series_steps cs)\<rparr>),
             currentSeriesAt :=
               \<lparr>series_at = freshAddr st + length (series_steps cs),
                steps_at =
                  map (\<lambda>i. if step_id (series_steps cs ! i) = stepId then freshAddr st + i
                           else addrAt (steps_at (currentSeriesAt st)) i)
                      [0..<length (series_steps cs)]\<rparr>\<rparr>)"

text \<open>
  \<open>handleReorderSteps\<close>: the series object is new; its steps are the step objects it is
  given, which live at \<open>addrs\<close>.
\<close>

definition handleReorderSteps :: "AlarmStep list \<Rightarrow> nat list \<Rightarrow> Screen \<Rightarrow> Screen" where
  "handleReorderSteps steps addrs st =
     (case currentSeries st of
        None \<Rightarrow> st
      | Some cs \<Rightarrow>
          st\<lparr>currentSeries := Some (cs\<lparr>series_steps := steps\<rparr>),
             currentSeriesAt := \<lparr>series_at = freshAddr st, steps_at = addrs\<rparr>\<rparr>)"

text \<open>The \<open>onChangeText\<close> of the series-name input of the modal: a new series object with
  the same \<open>steps\<close> array.\<close>

definition renameOnChangeText :: "string \<Rightarrow> Screen \<Rightarrow> Screen" where
  "renameOnChangeText text st =
     (case currentSeries st of
        None \<Rightarrow> st
      | Some cs \<Rightarrow>
          st\<lparr>currentSeries := Some (cs\<lparr>series_name := text\<rparr>),
             currentSeriesAt := (currentSeriesAt st)\<lparr>series_at := freshAddr st\<rparr>\<rparr>)"

text \<open>
  The \<open>onChangeText\<close> handlers of the minutes and seconds inputs of a step row
  (\<open>renderStepItem\<close>). \<open>parsed\<close> is what \<open>parseInt(text)\<close> returned, \<open>None\<close> for
  \<open>NaN\<close>; \<open>parseInt(text) || 0\<close> turns \<open>NaN\<close> into 0. \<open>Math.floor\<close> of the quotient is
  the integer division.
\<close>

definition minutesOnChangeText :: "int option \<Rightarrow> AlarmStep \<Rightarrow> Screen \<Rightarrow> Screen" where
  "minutesOnChangeText parsed item st =
     (let minutes = (case parsed of None \<Rightarrow> 0 | Some n \<Rightarrow> n)
      in handleUpdateStep (step_id item)
           \<lparr>upd_id = None, upd_duration = Some (minutes * 60000), upd_name = None\<rparr> st)"

definition secondsOnChangeText :: "int option \<Rightarrow> AlarmStep \<Rightarrow> Screen \<Rightarrow> Screen" where
  "secondsOnChangeText parsed item st =
     (let seconds = (case parsed of None \<Rightarrow> 0 | Some n \<Rightarrow> n);
          minutes = step_duration item div 60000
      in handleUpdateStep (step_id item)
           \<lparr>upd_id = None, upd_duration = Some (minutes * 60000 + seconds * 1000), upd_name = None\<rparr> st)"

text \<open>
  The \<open>onPress\<close> of the trash button of a step row (\<open>renderStepItem\<close>): it removes the
  step from the draft and saves the collection at once. The series object is new, the steps
  that remain are the objects they were.
\<close>

definition deleteStepOnPress :: "bool \<Rightarrow> string \<Rightarrow> Screen \<Rightarrow> Screen \<times> effect list" where
  "deleteStepOnPress ok itemId st =
     (case currentSeries st of
        None \<Rightarrow> (st, [])
      | Some cs \<Rightarrow>
          (let updatedSteps = filter (\<lambda>s. step_id s \<noteq> itemId) (series_steps cs);
               updatedSeries = cs\<lparr>series_steps := updatedSteps\<rparr>;
               updatedAt =
                 map (addrAt (steps_at (currentSeriesAt st)))
                     (filter (\<lambda>i. step_id (series_steps cs ! i) \<noteq> itemId)
                             [0..<length (series_steps cs)]);
               st1 = st\<lparr>currentSeries := Some updatedSeries,
                        currentSeriesAt := \<lparr>series_at = freshAddr st, steps_at = updatedAt\<rparr>\<rparr>;
               updatedSeriesList =
                 map (\<lambda>s. if series_id s = series_id cs then updatedSeries else s) (series st)
           in saveSeries ok updatedSeriesList st1))"

section \<open>Playback\<close>

text \<open>\<open>handlePlaySeries\<close> is given a series object, which lives at \<open>a\<close>; the current step
  becomes the first object of its \<open>steps\<close> array.\<close>

definition handlePlaySeries :: "AlarmSeries \<Rightarrow> SeriesAddr \<Rightarrow> Screen \<Rightarrow> Screen \<times> effect list" where
  "handlePlaySeries s a st =
     (case series_steps s of
        [] \<Rightarrow> (st, [Alert ''Error'' ''Please add steps to the series first''])
      | step0 # rest \<Rightarrow>
          (st\<lparr>currentSeries := Some s, currentSeriesAt := a,
              currentStep := Some step0, currentStepAt := addrAt (steps_at a) 0,
              remainingTime := step_duration step0, isPlaying := True\<rparr>, []))"

definition handleStopSeries :: "Screen \<Rightarrow> Screen" where
  "handleStopSeries st = st\<lparr>isPlaying := False, currentStep := None, remainingTime := 0\<rparr>"

text \<open>\<open>Array.prototype.findIndex\<close>: the first index that satisfies, or \<open>-1\<close>.\<close>

fun findIndex :: "('a \<Rightarrow> bool) \<Rightarrow> 'a list \<Rightarrow> int" where
  "findIndex P [] = - 1"
| "findIndex P (x # xs) =
     (if P x then 0 else (let i = findIndex P xs in if i < 0 then - 1 else i + 1))"

text \<open>
  The body of the timer \<open>useEffect\<close>, run at the clock reading \<open>now\<close>: it records the
  dependencies and, when \<open>isPlaying && currentStep\<close>, starts the interval.
\<close>

definition timerSetup :: "int \<Rightarrow> Screen \<Rightarrow> TimerEffect" where
  "timerSetup now st =
     \<lparr>dep_isPlaying = isPlaying st,
      dep_currentStep = currentStep st, dep_currentStepAt = currentStepAt st,
      dep_currentSeries = currentSeries st, dep_currentSeriesAt = currentSeriesAt st,
      startTime = (if isPlaying st \<and> currentStep st \<noteq> None then Some now else None)\<rparr>"

text \<open>
  The comparison of the dependency array \<open>[isPlaying, currentStep, currentSeries]\<close> with the
  one the effect in force ran with: \<open>Object.is\<close> on each entry, the boolean by value, the
  two objects by identity.
\<close>

definition sameDeps :: "Screen \<Rightarrow> bool" where
  "sameDeps st \<longleftrightarrow>
     dep_isPlaying (timerEffect st) = isPlaying st
     \<and> sameObject (dep_currentStep (timerEffect st)) (dep_currentStepAt (timerEffect st))
                    (currentStep st) (currentStepAt st)
     \<and> sameObject (dep_currentSeries (timerEffect st)) (series_at (dep_currentSeriesAt (timerEffect st)))
                    (currentSeries st) (series_at (currentSeriesAt st))"

text \<open>
  React commits a render: when a dependency of the timer effect is not the one the effect in
  force ran with, the cleanup clears the old interval and the effect runs again.
\<close>

definition commit :: "int \<Rightarrow> Screen \<Rightarrow> Screen" where
  "commit now st = (if sameDeps st then st else st\<lparr>timerEffect := timerSetup now st\<rparr>)"

text \<open>
  The interval callback, called at the clock reading \<open>now\<close>. \<open>duration\<close>, \<open>currentStep\<close>
  and \<open>currentSeries\<close> are the values the effect closed over; the next step is the object
  at the next index of the \<open>steps\<close> array of that series. Without a scheduled interval
  there is no callback.
\<close>

definition intervalCallback :: "int \<Rightarrow> Screen \<Rightarrow> Screen \<times> effect list" where
  "intervalCallback now st =
     (let e = timerEffect st in
      case (startTime e, dep_currentStep e) of
        (Some start, Some cstep) \<Rightarrow>
          (let duration = step_duration cstep;
               elapsed = now - start;
               newRemaining = max 0 (duration - elapsed)
           in if newRemaining \<le> 0 then
                (let st1 = st\<lparr>timerEffect := e\<lparr>startTime := None\<rparr>\<rparr>;
                     steps = (case dep_currentSeries e of None \<Rightarrow> [] | Some cs \<Rightarrow> series_steps cs);
                     currentIndex =
                       (case dep_currentSeries e of
                          None \<Rightarrow> - 1
                        | Some cs \<Rightarrow> findIndex (\<lambda>step. step_id step = step_id cstep) (series_steps cs))
                 in if currentIndex \<ge> 0 \<and> currentIndex < int (length steps) - 1 then
                      (let nextStep = steps ! nat (currentIndex + 1)
                       in (st1\<lparr>currentStep := Some nextStep,
                               currentStepAt :=
                                 addrAt (steps_at (dep_currentSeriesAt e)) (nat (currentIndex + 1)),
                               remainingTime := step_duration nextStep\<rparr>, [PlayAlarm]))
                    else (handleStopSeries st1,
                          [PlayAlarm, Alert ''Series Complete'' ''All steps have been completed!'']))
              else (st\<lparr>remainingTime := newRemaining\<rparr>, []))
      | _ \<Rightarrow> (st, []))"

text \<open>
  A run of the screen under the scheduler: \<open>Tick t\<close> delivers the interval callback at
  clock reading \<open>t\<close>, \<open>Commit t\<close> commits a render at clock reading \<open>t\<close>. The trace pairs
  every effect with the step the screen showed when the event arrived.
\<close>

datatype event = Tick int | Commit int

fun deliver :: "event \<Rightarrow> Screen \<Rightarrow> Screen \<times> effect list" where
  "deliver (Tick t) st = intervalCallback t st"
| "deliver (Commit t) st = (commit t st, [])"

fun run :: "event list \<Rightarrow> Screen \<Rightarrow> Screen \<times> (AlarmStep option \<times> effect) list" where
  "run [] st = (st, [])"
| "run (ev # evs) st =
     (case deliver ev st of
        (st1, fx) \<Rightarrow>
          (case run evs st1 of
             (st2, tr) \<Rightarrow> (st2, map (Pair (currentStep st)) fx @ tr)))"

text \<open>The screen when the component mounts: the initial \<open>useState\<close> values, the slot
  as found, and the timer effect after its first run (nothing is playing).\<close>

definition initialScreen :: "item option \<Rightarrow> Screen" where
  "initialScreen slot =
     \<lparr>series = [], currentSeries = None, currentSeriesAt = \<lparr>series_at = 0, steps_at = []\<rparr>,
      isEditing = False, isPlaying = False, currentStep = None, currentStepAt = 0,
      remainingTime = 0, modalVisible = False, storage = slot,
      timerEffect = \<lparr>dep_isPlaying = False, dep_currentStep = None, dep_currentStepAt = 0,
                      dep_currentSeries = None,
                      dep_currentSeriesAt = \<lparr>series_at = 0, steps_at = []\<rparr>,
                      startTime = None\<rparr>\<rparr>"

section \<open>States and observations of a playback run\<close>

text \<open>
  \<open>showing s k st\<close>: the screen plays step \<open>k\<close> of the series \<open>s\<close>. Either the interval
  of the timer effect in force is scheduled and the effect ran with this step and this
  series, or no interval is scheduled and a dependency has changed, so that the next commit
  runs the effect again.
\<close>

definition showing :: "AlarmSeries \<Rightarrow> nat \<Rightarrow> Screen \<Rightarrow> bool" where
  "showing s k st \<longleftrightarrow>
     k < length (series_steps s) \<and> isPlaying st
     \<and> currentStep st = Some (series_steps s ! k) \<and> currentSeries st = Some s
     \<and> (case startTime (timerEffect st) of
          None \<Rightarrow> \<not> sameDeps st
        | Some start \<Rightarrow> dep_isPlaying (timerEffect st)
                     \<and> dep_currentStep (timerEffect st) = Some (series_steps s ! k)
                     \<and> dep_currentSeries (timerEffect st) = Some s)"

text \<open>What \<open>handleStopSeries\<close> leaves, with no interval scheduled.\<close>

definition finished :: "Screen \<Rightarrow> bool" where
  "finished st \<longleftrightarrow>
     \<not> isPlaying st \<and> currentStep st = None \<and> remainingTime st = 0
     \<and> startTime (timerEffect st) = None"

text \<open>Nothing is playing, and the timer effect in force ran with nothing playing.\<close>

definition idle :: "Screen \<Rightarrow> bool" where
  "idle st \<longleftrightarrow>
     \<not> isPlaying st \<and> \<not> dep_isPlaying (timerEffect st) \<and> startTime (timerEffect st) = None"

text \<open>
  The expected trace: one \<open>playAlarm\<close> per step, fired while that step is shown, then the
  completion alert, fired by the tick that ends the last step.
\<close>

definition boundaries :: "AlarmStep list \<Rightarrow> (AlarmStep option \<times> effect) list" where
  "boundaries xs = map (\<lambda>x. (Some x, PlayAlarm)) xs"

definition completion :: "AlarmStep list \<Rightarrow> (AlarmStep option \<times> effect) list" where
  "completion xs = [(Some (last xs), Alert ''Series Complete'' ''All steps have been completed!'')]"

text \<open>
  A punctual scheduler: for each step, the render is committed at \<open>t\<close> and the interval
  callback arrives when the step's duration has passed.
\<close>

fun schedule :: "int \<Rightarrow> AlarmStep list \<Rightarrow> event list" where
  "schedule t [] = []"
| "schedule t (x # xs) =
     Commit t # Tick (t + max 0 (step_duration x)) # schedule (t + max 0 (step_duration x)) xs"

text \<open>A run that starts with \<open>handlePlaySeries\<close> on the series object \<open>s\<close> at \<open>a\<close> and
  then receives the events.\<close>

definition playback ::
  "AlarmSeries \<Rightarrow> SeriesAddr \<Rightarrow> Screen \<Rightarrow> event list \<Rightarrow> Screen \<times> (AlarmStep option \<times> effect) list"
where
  "playback s a st evs = run evs (fst (handlePlaySeries s a st))"

text \<open>Where the objects of the concrete series below live: the series object at 1, its
  steps at the addresses that follow.\<close>

definition twoStepsAt :: SeriesAddr where
  "twoStepsAt = \<lparr>series_at = 1, steps_at = [2, 3]\<rparr>"

definition threeStepsAt :: SeriesAddr where
  "threeStepsAt = \<lparr>series_at = 1, steps_at = [2, 3, 4]\<rparr>"

text \<open>A series with two zero-duration steps and a one-minute step.\<close>

definition demoSeries :: AlarmSeries where
  "demoSeries =
     \<lparr>series_id = ''1'', series_name = ''New Series'',
      series_steps = [\<lparr>step_id = ''10'', step_duration = 0, step_name = ''Step 1''\<rparr>,
                      \<lparr>step_id = ''11'', step_duration = 0, step_name = ''Step 2''\<rparr>,
                      \<lparr>step_id = ''12'', step_duration = 60000, step_name = ''Step 3''\<rparr>]\<rparr>"

text \<open>
  \<open>running st\<close>: a step is playing and the timer effect in force is the one of the state:
  it ran with the current values and its interval is scheduled.
\<close>

definition running :: "Screen \<Rightarrow> bool" where
  "running st \<longleftrightarrow>
     isPlaying st \<and> currentStep st \<noteq> None
     \<and> dep_isPlaying (timerEffect st) \<and> dep_currentStep (timerEffect st) = currentStep st
     \<and> dep_currentSeries (timerEffect st) = currentSeries st
     \<and> startTime (timerEffect st) \<noteq> None"

text \<open>The steps of the current series: the draft of the editor, and what the timer plays.\<close>

definition draftSteps :: "Screen \<Rightarrow> AlarmStep list" where
  "draftSteps st = (case currentSeries st of None \<Rightarrow> [] | Some cs \<Rightarrow> series_steps cs)"


text \<open>The series of the concrete scenario, and the screen once it has been saved and is playing.\<close>

definition pomodoro :: AlarmSeries where
  "pomodoro =
     \<lparr>series_id = ''1'', series_name = ''Pomodoro'',
      series_steps = [\<lparr>step_id = ''2'', step_duration = 1500000, step_name = ''Work''\<rparr>,
                      \<lparr>step_id = ''3'', step_duration = 300000, step_name = ''Break''\<rparr>]\<rparr>"

definition pomodoroPlaying :: Screen where
  "pomodoroPlaying =
     commit 0 (fst (handlePlaySeries pomodoro twoStepsAt
                      (fst (saveSeries True [pomodoro] (initialScreen None)))))"

text \<open>The operations of the editor on the draft, as the modal offers them.\<close>

datatype edit =
    Rename string
  | AddStep int
  | RemoveStep bool string
  | UpdateStep string StepUpdates
  | ReorderSteps "AlarmStep list" "nat list"

fun applyEdit :: "edit \<Rightarrow> Screen \<Rightarrow> Screen" where
  "applyEdit (Rename text) st = renameOnChangeText text st"
| "applyEdit (AddStep now) st = handleAddStep now st"
| "applyEdit (RemoveStep ok stepId) st = fst (deleteStepOnPress ok stepId st)"
| "applyEdit (UpdateStep stepId updates) st = handleUpdateStep stepId updates st"
| "applyEdit (ReorderSteps steps addrs) st = handleReorderSteps steps addrs st"

text \<open>The screen once the series has been saved and opened in the editor.\<close>

definition pomodoroEditing :: Screen where
  "pomodoroEditing =
     handleEditSeries pomodoro twoStepsAt (fst (saveSeries True [pomodoro] (initialScreen None)))"

text \<open>A series whose two steps share their id, and one whose first step has a negative
  duration.\<close>

definition twinSeries :: AlarmSeries where
  "twinSeries =
     \<lparr>series_id = ''1'', series_name = ''New Series'',
      series_steps = [\<lparr>step_id = ''7'', step_duration = 0, step_name = ''Step 1''\<rparr>,
                      \<lparr>step_id = ''7'', step_duration = 0, step_name = ''Step 2''\<rparr>]\<rparr>"


section \<open>Playing an empty series\<close>

text \<open>
  C5. For a series with no steps \<open>handlePlaySeries\<close> changes nothing of the state (no
  current series, step, remaining time or playing flag is set, the timer effect is as
  before), and its only effect is the validation alert: \<open>playAlarm\<close> is not called and no
  completion alert is shown.
\<close>

theorem play_empty_series_rejected:
  "series_steps s = [] \<Longrightarrow>
     handlePlaySeries s a st = (st, [Alert ''Error'' ''Please add steps to the series first''])
     \<and> commit now (fst (handlePlaySeries s a st)) = commit now st
     \<and> PlayAlarm \<notin> set (snd (handlePlaySeries s a st))"
  by (simp add: handlePlaySeries_def)

theorem play_empty_series_rejected_witness:
  "series_steps \<lparr>series_id = ''1'', series_name = ''New Series'', series_steps = []\<rparr> = []
   \<and> handlePlaySeries \<lparr>series_id = ''1'', series_name = ''New Series'', series_steps = []\<rparr>
         \<lparr>series_at = 1, steps_at = []\<rparr> (initialScreen None)
       = (initialScreen None, [Alert ''Error'' ''Please add steps to the series first''])"
  using play_empty_series_rejected
    [of "\<lparr>series_id = ''1'', series_name = ''New Series'', series_steps = []\<rparr>"
        "\<lparr>series_at = 1, steps_at = []\<rparr>" "initialScreen None" 0]
  by simp

section \<open>Playback visits every step once\<close>

lemma findIndex_distinct:
  "distinct (map f xs) \<Longrightarrow> k < length xs \<Longrightarrow> findIndex (\<lambda>s. f s = f (xs ! k)) xs = int k"
proof (induction xs arbitrary: k)
  case Nil
  then show ?case by simp
next
  case (Cons x xs)
  show ?case
  proof (cases k)
    case 0
    then show ?thesis by simp
  next
    case (Suc j)
    with Cons.prems have j: "j < length xs" and d: "distinct (map f xs)" and nx: "f x \<notin> f ` set xs"
      by auto
    from j nx have "f x \<noteq> f (xs ! j)" by (metis imageI nth_mem)
    moreover from Cons.IH [OF d j] have "findIndex (\<lambda>s. f s = f (xs ! j)) xs = int j" .
    ultimately show ?thesis using Suc by (simp add: Let_def)
  qed
qed

lemma commit_showing:
  "showing s k st \<Longrightarrow> showing s k (commit t st)"
  by (auto simp: showing_def commit_def timerSetup_def split: option.splits)

lemma commit_finished: "finished st \<Longrightarrow> finished (commit t st)"
  by (auto simp: finished_def commit_def timerSetup_def)

lemma tick_finished: "finished st \<Longrightarrow> intervalCallback t st = (st, [])"
  by (simp add: finished_def intervalCallback_def Let_def)

lemma distinct_nth_neq:
  "distinct (map f xs) \<Longrightarrow> Suc k < length xs \<Longrightarrow> xs ! k \<noteq> xs ! Suc k"
  by (metis Suc_lessD distinct_map n_not_Suc_n nth_eq_iff_index_eq)

lemma tick_showing:
  assumes sh: "showing s k st" and d: "distinct (map step_id (series_steps s))"
  shows "(snd (intervalCallback t st) = [] \<and> showing s k (fst (intervalCallback t st)))
       \<or> (snd (intervalCallback t st) = [PlayAlarm] \<and> Suc k < length (series_steps s)
           \<and> showing s (Suc k) (fst (intervalCallback t st)))
       \<or> (snd (intervalCallback t st)
             = [PlayAlarm, Alert ''Series Complete'' ''All steps have been completed!'']
           \<and> Suc k = length (series_steps s) \<and> finished (fst (intervalCallback t st)))"
proof (cases "startTime (timerEffect st)")
  case None
  then show ?thesis using sh by (simp add: intervalCallback_def Let_def)
next
  case (Some start)
  with sh have k: "k < length (series_steps s)"
    and deps: "dep_currentStep (timerEffect st) = Some (series_steps s ! k)"
              "dep_currentSeries (timerEffect st) = Some s"
    by (simp_all add: showing_def)
  have fi: "findIndex (\<lambda>step. step_id step = step_id (series_steps s ! k)) (series_steps s) = int k"
    using findIndex_distinct [OF d k] .
  show ?thesis
  proof (cases "step_duration (series_steps s ! k) - (t - start) \<le> 0")
    case False
    then show ?thesis using sh Some deps
      by (simp add: intervalCallback_def Let_def showing_def)
  next
    case True
    show ?thesis
    proof (cases "Suc k < length (series_steps s)")
      case True
      with distinct_nth_neq [OF d True] \<open>step_duration (series_steps s ! k) - (t - start) \<le> 0\<close>
      show ?thesis using sh Some deps fi
        by (simp add: intervalCallback_def Let_def showing_def sameDeps_def sameObject_def
              nat_add_distrib)
    next
      case False
      with k have "Suc k = length (series_steps s)" by simp
      with \<open>step_duration (series_steps s ! k) - (t - start) \<le> 0\<close>
      show ?thesis using sh Some deps fi
        by (auto simp add: intervalCallback_def Let_def showing_def finished_def handleStopSeries_def)
    qed
  qed
qed

lemma run_finished: "finished st \<Longrightarrow> snd (run evs st) = [] \<and> finished (fst (run evs st))"
proof (induction evs arbitrary: st)
  case Nil
  then show ?case by simp
next
  case (Cons ev evs)
  show ?case
  proof (cases ev)
    case (Tick t)
    with Cons show ?thesis by (simp add: tick_finished split: prod.splits)
  next
    case (Commit t)
    with Cons.IH [OF commit_finished [OF Cons.prems, of t]] show ?thesis
      by (simp split: prod.splits)
  qed
qed

lemma run_showing:
  assumes d: "distinct (map step_id (series_steps s))"
  shows "showing s k st \<Longrightarrow>
     (\<exists>j. k \<le> j \<and> showing s j (fst (run evs st))
          \<and> snd (run evs st) = boundaries (take (j - k) (drop k (series_steps s))))
     \<or> (finished (fst (run evs st))
          \<and> snd (run evs st) = boundaries (drop k (series_steps s)) @ completion (series_steps s))"
proof (induction evs arbitrary: k st)
  case Nil
  then show ?case by (auto simp: boundaries_def)
next
  case (Cons ev evs)
  show ?case
  proof (cases ev)
    case (Commit t)
    from Cons.IH [OF commit_showing [OF Cons.prems, of t]] Commit show ?thesis
      by (simp split: prod.splits)
  next
    case (Tick t)
    let ?st1 = "fst (intervalCallback t st)"
    let ?fx = "snd (intervalCallback t st)"
    have k: "k < length (series_steps s)" and cs: "currentStep st = Some (series_steps s ! k)"
      using Cons.prems by (simp_all add: showing_def)
    have r: "run (ev # evs) st
               = (fst (run evs ?st1), map (Pair (currentStep st)) ?fx @ snd (run evs ?st1))"
      using Tick by (simp split: prod.splits)
    from tick_showing [OF Cons.prems d, of t]
    consider (stay) "?fx = []" "showing s k ?st1"
      | (adv) "?fx = [PlayAlarm]" "Suc k < length (series_steps s)" "showing s (Suc k) ?st1"
      | (fin) "?fx = [PlayAlarm, Alert ''Series Complete'' ''All steps have been completed!'']"
              "Suc k = length (series_steps s)" "finished ?st1"
      by blast
    then show ?thesis
    proof cases
      case stay
      from Cons.IH [OF stay(2)] stay(1) r show ?thesis by simp
    next
      case adv
      have dk: "drop k (series_steps s) = series_steps s ! k # drop (Suc k) (series_steps s)"
        using k by (simp add: Cons_nth_drop_Suc)
      from Cons.IH [OF adv(3)] show ?thesis
      proof
        assume "\<exists>j. Suc k \<le> j \<and> showing s j (fst (run evs ?st1))
          \<and> snd (run evs ?st1) = boundaries (take (j - Suc k) (drop (Suc k) (series_steps s)))"
        then obtain j where j: "Suc k \<le> j" "showing s j (fst (run evs ?st1))"
          "snd (run evs ?st1) = boundaries (take (j - Suc k) (drop (Suc k) (series_steps s)))"
          by blast
        from j(1) have "j - k = Suc (j - Suc k)" by simp
        then have "boundaries (take (j - k) (drop k (series_steps s)))
            = (Some (series_steps s ! k), PlayAlarm) # snd (run evs ?st1)"
          using dk j(3) by (simp add: boundaries_def)
        with j(1,2) adv(1) r cs show ?thesis
          by (intro disjI1 exI [of _ j]) simp
      next
        assume "finished (fst (run evs ?st1))
          \<and> snd (run evs ?st1) = boundaries (drop (Suc k) (series_steps s)) @ completion (series_steps s)"
        with adv(1) r cs dk show ?thesis by (simp add: boundaries_def)
      qed
    next
      case fin
      from fin(2) k have dk: "drop k (series_steps s) = [series_steps s ! k]"
        by (simp add: Cons_nth_drop_Suc [symmetric])
      from fin(2) have "series_steps s \<noteq> []" and "length (series_steps s) - 1 = k"
        by auto
      then have l: "last (series_steps s) = series_steps s ! k"
        by (simp add: last_conv_nth)
      from run_finished [OF fin(3), of evs] fin(1) r cs dk l show ?thesis
        by (simp add: boundaries_def completion_def)
    qed
  qed
qed

lemma play_showing:
  "idle st \<Longrightarrow> series_steps s \<noteq> [] \<Longrightarrow> showing s 0 (fst (handlePlaySeries s a st))"
  by (cases "series_steps s")
     (simp_all add: idle_def handlePlaySeries_def showing_def sameDeps_def)

lemma punctual_tick:
  assumes sh: "showing s k st" and p: "startTime (timerEffect st) = None"
    and d: "distinct (map step_id (series_steps s))"
  shows "(Suc k < length (series_steps s)
            \<and> showing s (Suc k) (fst (intervalCallback (t + max 0 (step_duration (series_steps s ! k))) (commit t st)))
            \<and> startTime (timerEffect (fst (intervalCallback (t + max 0 (step_duration (series_steps s ! k))) (commit t st)))) = None)
       \<or> finished (fst (intervalCallback (t + max 0 (step_duration (series_steps s ! k))) (commit t st)))"
proof -
  let ?c = "commit t st"
  let ?t' = "t + max 0 (step_duration (series_steps s ! k))"
  from sh p have c: "showing s k ?c" "startTime (timerEffect ?c) = Some t"
    "dep_currentStep (timerEffect ?c) = Some (series_steps s ! k)"
    by (auto simp: showing_def commit_def timerSetup_def)
  from c(2,3) have fx: "snd (intervalCallback ?t' ?c) \<noteq> []"
    and st: "startTime (timerEffect (fst (intervalCallback ?t' ?c))) = None"
    by (simp_all add: intervalCallback_def Let_def handleStopSeries_def)
  from tick_showing [OF c(1) d, of ?t'] fx st show ?thesis by auto
qed

lemma schedule_finishes:
  assumes d: "distinct (map step_id (series_steps s))"
  shows "showing s k st \<Longrightarrow> startTime (timerEffect st) = None \<Longrightarrow> ys = drop k (series_steps s) \<Longrightarrow>
         finished (fst (run (schedule t ys) st))"
proof (induction ys arbitrary: k st t)
  case Nil
  then show ?case by (simp add: showing_def)
next
  case (Cons y ys)
  from Cons.prems(1) have k: "k < length (series_steps s)" by (simp add: showing_def)
  with Cons.prems(3) have y: "y = series_steps s ! k" and ys: "ys = drop (Suc k) (series_steps s)"
    by (simp_all add: Cons_nth_drop_Suc [symmetric])
  let ?st1 = "fst (intervalCallback (t + max 0 (step_duration y)) (commit t st))"
  have r: "fst (run (schedule t (y # ys)) st) = fst (run (schedule (t + max 0 (step_duration y)) ys) ?st1)"
    by (simp split: prod.splits)
  from punctual_tick [OF Cons.prems(1,2) d, of t] y
  have "(Suc k < length (series_steps s) \<and> showing s (Suc k) ?st1 \<and> startTime (timerEffect ?st1) = None)
        \<or> finished ?st1" by simp
  then show ?case
  proof
    assume "Suc k < length (series_steps s) \<and> showing s (Suc k) ?st1 \<and> startTime (timerEffect ?st1) = None"
    with Cons.IH [of "Suc k" ?st1] ys r show ?thesis by simp
  next
    assume "finished ?st1"
    with run_finished r show ?thesis by simp
  qed
qed

text \<open>With no interval scheduled and no dependency changed, no tick and no commit does
  anything.\<close>

lemma stalled_forever:
  "startTime (timerEffect st) = None \<Longrightarrow> sameDeps st \<Longrightarrow> run evs st = (st, [])"
proof (induction evs)
  case Nil
  then show ?case by simp
next
  case (Cons ev evs)
  then show ?case
    by (cases ev) (simp_all add: intervalCallback_def commit_def)
qed

text \<open>
  C1 as stated fails for a series whose steps share an id: the callback looks the current
  step up by its id. With two steps of the same id, the second step is found at the first
  index, the object at the next index is the second step itself, so setting it changes no
  dependency of the timer effect: after the punctual schedule, and more ticks and commits,
  playback is still on the second step with no interval scheduled and no dependency changed,
  both steps have fired their notification and no completion alert has been shown, nor will
  it be (\<open>stalled_forever\<close>).
\<close>

theorem playback_with_shared_ids_counterexample:
  "series_steps twinSeries \<noteq> [] \<and> idle (initialScreen None)
   \<and> isPlaying (fst (playback twinSeries twoStepsAt (initialScreen None)
        [Commit 0, Tick 0, Commit 0, Tick 0, Commit 0, Tick 16, Commit 20, Tick 36]))
   \<and> startTime (timerEffect (fst (playback twinSeries twoStepsAt (initialScreen None)
        [Commit 0, Tick 0, Commit 0, Tick 0, Commit 0, Tick 16, Commit 20, Tick 36]))) = None
   \<and> sameDeps (fst (playback twinSeries twoStepsAt (initialScreen None)
        [Commit 0, Tick 0, Commit 0, Tick 0, Commit 0, Tick 16, Commit 20, Tick 36]))
   \<and> snd (playback twinSeries twoStepsAt (initialScreen None)
        [Commit 0, Tick 0, Commit 0, Tick 0, Commit 0, Tick 16, Commit 20, Tick 36])
     = [(Some \<lparr>step_id = ''7'', step_duration = 0, step_name = ''Step 1''\<rparr>, PlayAlarm),
        (Some \<lparr>step_id = ''7'', step_duration = 0, step_name = ''Step 2''\<rparr>, PlayAlarm)]
   \<and> schedule 0 (series_steps twinSeries) = [Commit 0, Tick 0, Commit 0, Tick 0]"
  by (simp add: twinSeries_def twoStepsAt_def initialScreen_def idle_def playback_def
        handlePlaySeries_def commit_def sameDeps_def sameObject_def addrAt_def timerSetup_def
        intervalCallback_def handleStopSeries_def Let_def)

text \<open>
  C1, amended. Let the series have at least one step and pairwise distinct step ids,
  durations of any sign or zero, and let playback start from an idle screen, whatever the
  addresses of the objects. Whatever ticks and commits arrive: while the screen still plays,
  it shows some step \<open>k\<close> and exactly the first \<open>k\<close> steps have fired their boundary
  notification, in step order; once playback has ended, the trace is exactly one boundary
  notification per step, in step order, followed by one completion alert. Zero-duration
  steps are neither skipped nor merged. Under the punctual scheduler playback does end.
\<close>

theorem playback_fires_once_per_step:
  assumes d: "distinct (map step_id (series_steps s))" and ne: "series_steps s \<noteq> []"
    and i: "idle st"
  shows "(isPlaying (fst (playback s a st evs)) \<longrightarrow>
            (\<exists>k<length (series_steps s).
               snd (playback s a st evs) = boundaries (take k (series_steps s))
               \<and> currentStep (fst (playback s a st evs)) = Some (series_steps s ! k)))
       \<and> (\<not> isPlaying (fst (playback s a st evs)) \<longrightarrow>
            snd (playback s a st evs) = boundaries (series_steps s) @ completion (series_steps s)
            \<and> currentStep (fst (playback s a st evs)) = None)
       \<and> \<not> isPlaying (fst (playback s a st (schedule t (series_steps s))))"
proof -
  let ?st0 = "fst (handlePlaySeries s a st)"
  have sh: "showing s 0 ?st0" using play_showing [OF i ne] .
  have p: "startTime (timerEffect ?st0) = None"
    using i ne by (cases "series_steps s") (simp_all add: idle_def handlePlaySeries_def)
  from run_showing [OF d sh, of evs]
  have a: "(\<exists>j. showing s j (fst (playback s a st evs))
               \<and> snd (playback s a st evs) = boundaries (take j (series_steps s)))
        \<or> (finished (fst (playback s a st evs))
               \<and> snd (playback s a st evs) = boundaries (series_steps s) @ completion (series_steps s))"
    by (simp add: playback_def)
  have b: "finished (fst (playback s a st (schedule t (series_steps s))))"
    using schedule_finishes [OF d sh p, of "series_steps s" t] by (simp add: playback_def)
  from a b show ?thesis
    by (auto simp: showing_def finished_def)
qed

theorem playback_fires_once_per_step_witness:
  "distinct (map step_id (series_steps demoSeries)) \<and> series_steps demoSeries \<noteq> []
   \<and> idle (initialScreen None)
   \<and> \<not> isPlaying (fst (playback demoSeries threeStepsAt (initialScreen None)
         [Commit 0, Tick 16, Commit 20, Tick 36, Commit 40, Tick 56, Tick 300056]))
   \<and> snd (playback demoSeries threeStepsAt (initialScreen None)
         [Commit 0, Tick 16, Commit 20, Tick 36, Commit 40, Tick 56, Tick 300056])
       = [(Some \<lparr>step_id = ''10'', step_duration = 0, step_name = ''Step 1''\<rparr>, PlayAlarm),
          (Some \<lparr>step_id = ''11'', step_duration = 0, step_name = ''Step 2''\<rparr>, PlayAlarm),
          (Some \<lparr>step_id = ''12'', step_duration = 60000, step_name = ''Step 3''\<rparr>, PlayAlarm),
          (Some \<lparr>step_id = ''12'', step_duration = 60000, step_name = ''Step 3''\<rparr>,
           Alert ''Series Complete'' ''All steps have been completed!'')]"
  using playback_fires_once_per_step
    [of demoSeries "initialScreen None" threeStepsAt
        "[Commit 0, Tick 16, Commit 20, Tick 36, Commit 40, Tick 56, Tick 300056]" 0]
  by (simp add: demoSeries_def threeStepsAt_def initialScreen_def idle_def playback_def
        handlePlaySeries_def commit_def sameDeps_def sameObject_def addrAt_def timerSetup_def
        intervalCallback_def handleStopSeries_def Let_def boundaries_def completion_def)

section \<open>Remaining time\<close>

lemmas eval_defs = pomodoro_def pomodoroPlaying_def twoStepsAt_def initialScreen_def
  saveSeries_def handlePlaySeries_def commit_def sameDeps_def sameObject_def addrAt_def
  addrsInUse_def freshAddr_def timerSetup_def intervalCallback_def handleStopSeries_def Let_def

lemma fold_max_ge: "m \<le> fold max xs (m::nat)"
  by (induction xs arbitrary: m) (auto intro: order_trans [OF max.cobounded2])

lemma fold_max_mem: "x \<in> set xs \<Longrightarrow> x \<le> fold max xs (m::nat)"
proof (induction xs arbitrary: m)
  case Nil
  then show ?case by simp
next
  case (Cons y ys)
  show ?case
  proof (cases "x = y")
    case True
    have "y \<le> max y m" by simp
    also have "\<dots> \<le> fold max ys (max y m)" by (rule fold_max_ge)
    finally show ?thesis using True by simp
  next
    case False
    with Cons.prems have "x \<in> set ys" by simp
    from Cons.IH [OF this] show ?thesis by simp
  qed
qed

lemma freshAddr_gt: "x \<in> set (addrsInUse st) \<Longrightarrow> x < freshAddr st"
  using fold_max_mem [of x "addrsInUse st" 0] by (simp add: freshAddr_def)

lemma freshAddr_gt_dep: "series_at (dep_currentSeriesAt (timerEffect st)) < freshAddr st"
  by (rule freshAddr_gt) (simp add: addrsInUse_def)




section \<open>Editing and deleting while a series plays\<close>

text \<open>
  C3 as stated fails: the timer reads the cell \<open>currentSeries\<close>, which the editor writes.
  While the two-step series plays its first step, dragging the steps into the opposite order
  changes the step sequence of the session, and the run then ends after the first step: the
  second step is never played, where the unedited run goes on to it.
\<close>

theorem edit_while_playing_counterexample:
  "running pomodoroPlaying
   \<and> map_option series_steps (currentSeries (applyEdit (ReorderSteps (rev (series_steps pomodoro)) [3, 2]) pomodoroPlaying))
       \<noteq> map_option series_steps (currentSeries pomodoroPlaying)
   \<and> snd (run [Commit 10, Tick 1500010] (applyEdit (ReorderSteps (rev (series_steps pomodoro)) [3, 2]) pomodoroPlaying))
       = [(Some \<lparr>step_id = ''2'', step_duration = 1500000, step_name = ''Work''\<rparr>, PlayAlarm),
          (Some \<lparr>step_id = ''2'', step_duration = 1500000, step_name = ''Work''\<rparr>,
           Alert ''Series Complete'' ''All steps have been completed!'')]
   \<and> snd (run [Commit 10, Tick 1500010] pomodoroPlaying)
       = [(Some \<lparr>step_id = ''2'', step_duration = 1500000, step_name = ''Work''\<rparr>, PlayAlarm)]"
  by (simp add: eval_defs running_def handleReorderSteps_def)

text \<open>
  C3, amended. There is no snapshot. An editor operation performed while a series plays
  leaves \<open>isPlaying\<close>, \<open>currentStep\<close> and the cell \<open>remainingTime\<close> as they are, and
  makes the edited draft, a new object, the current series. The next commit therefore runs
  the timer effect again, whether or not a field changed: it advances through the edited
  steps from then on, and the countdown of the current step starts again at the time of the
  commit.
\<close>

theorem edit_while_playing:
  assumes r: "running st" and cs: "currentSeries st = Some cs"
  shows "isPlaying (applyEdit e st) = isPlaying st
       \<and> currentStep (applyEdit e st) = currentStep st
       \<and> remainingTime (applyEdit e st) = remainingTime st
       \<and> timerEffect (applyEdit e st) = timerEffect st
       \<and> currentSeries (applyEdit e st) =
           Some (case e of
                   Rename text \<Rightarrow> cs\<lparr>series_name := text\<rparr>
                 | AddStep now \<Rightarrow>
                     cs\<lparr>series_steps := series_steps cs @
                          [\<lparr>step_id = toString now, step_duration = 60000,
                            step_name = ''Step '' @ toString (int (length (series_steps cs)) + 1)\<rparr>]\<rparr>
                 | RemoveStep ok stepId \<Rightarrow>
                     cs\<lparr>series_steps := filter (\<lambda>s. step_id s \<noteq> stepId) (series_steps cs)\<rparr>
                 | UpdateStep stepId updates \<Rightarrow>
                     cs\<lparr>series_steps :=
                          map (\<lambda>step. if step_id step = stepId then spread step updates else step)
                              (series_steps cs)\<rparr>
                 | ReorderSteps steps addrs \<Rightarrow> cs\<lparr>series_steps := steps\<rparr>)
       \<and> startTime (timerEffect (commit t (applyEdit e st))) = Some t
       \<and> dep_currentSeries (timerEffect (commit t (applyEdit e st))) = currentSeries (applyEdit e st)
       \<and> dep_currentStep (timerEffect (commit t (applyEdit e st))) = currentStep st"
proof -
  have a: "isPlaying (applyEdit e st) = isPlaying st \<and> currentStep (applyEdit e st) = currentStep st
       \<and> remainingTime (applyEdit e st) = remainingTime st \<and> timerEffect (applyEdit e st) = timerEffect st"
    using cs
    by (cases e)
       (simp_all add: renameOnChangeText_def handleAddStep_def deleteStepOnPress_def saveSeries_def
          handleUpdateStep_def handleReorderSteps_def Let_def)
  have b: "currentSeries (applyEdit e st) =
           Some (case e of
                   Rename text \<Rightarrow> cs\<lparr>series_name := text\<rparr>
                 | AddStep now \<Rightarrow>
                     cs\<lparr>series_steps := series_steps cs @
                          [\<lparr>step_id = toString now, step_duration = 60000,
                            step_name = ''Step '' @ toString (int (length (series_steps cs)) + 1)\<rparr>]\<rparr>
                 | RemoveStep ok stepId \<Rightarrow>
                     cs\<lparr>series_steps := filter (\<lambda>s. step_id s \<noteq> stepId) (series_steps cs)\<rparr>
                 | UpdateStep stepId updates \<Rightarrow>
                     cs\<lparr>series_steps :=
                          map (\<lambda>step. if step_id step = stepId then spread step updates else step)
                              (series_steps cs)\<rparr>
                 | ReorderSteps steps addrs \<Rightarrow> cs\<lparr>series_steps := steps\<rparr>)"
    using cs
    by (cases e)
       (simp_all add: renameOnChangeText_def handleAddStep_def deleteStepOnPress_def saveSeries_def
          handleUpdateStep_def handleReorderSteps_def Let_def)
  have "freshAddr st \<le> series_at (currentSeriesAt (applyEdit e st))"
    using cs
    by (cases e)
       (simp_all add: renameOnChangeText_def handleAddStep_def deleteStepOnPress_def saveSeries_def
          handleUpdateStep_def handleReorderSteps_def Let_def)
  with freshAddr_gt_dep [of st] a
  have "series_at (dep_currentSeriesAt (timerEffect (applyEdit e st)))
          \<noteq> series_at (currentSeriesAt (applyEdit e st))"
    by simp
  with r cs a b have n: "\<not> sameDeps (applyEdit e st)"
    by (simp add: sameDeps_def sameObject_def running_def)
  have c: "startTime (timerEffect (commit t (applyEdit e st))) = Some t
       \<and> dep_currentSeries (timerEffect (commit t (applyEdit e st))) = currentSeries (applyEdit e st)
       \<and> dep_currentStep (timerEffect (commit t (applyEdit e st))) = currentStep st"
    using r a n by (auto simp: running_def commit_def timerSetup_def)
  from a b c show ?thesis by blast
qed

theorem edit_while_playing_witness:
  "running pomodoroPlaying \<and> currentSeries pomodoroPlaying = Some pomodoro
   \<and> currentStep (applyEdit (ReorderSteps (rev (series_steps pomodoro)) [3, 2]) pomodoroPlaying)
       = Some \<lparr>step_id = ''2'', step_duration = 1500000, step_name = ''Work''\<rparr>
   \<and> startTime (timerEffect (commit 10 (applyEdit (ReorderSteps (rev (series_steps pomodoro)) [3, 2]) pomodoroPlaying)))
       = Some 10"
  using edit_while_playing
    [of pomodoroPlaying pomodoro "ReorderSteps (rev (series_steps pomodoro)) [3, 2]" 10]
  by (simp add: eval_defs running_def handleReorderSteps_def)






section \<open>Saving and loading the collection\<close>

lemma as_step_step_json: "as_step (step_json s) = Some s"
  by (simp add: as_step_def step_json_def)

lemma those_map_Some: "(\<And>x. f (g x) = Some x) \<Longrightarrow> those (map (f \<circ> g) xs) = Some xs"
  by (induction xs) simp_all

lemma as_series_series_json: "as_series (series_json s) = Some s"
  by (simp add: as_series_def series_json_def those_map_Some [of as_step step_json, OF as_step_step_json])

lemma as_collection_stringify:
  "JSON_parse (JSON_stringify xs) = Some v \<Longrightarrow> as_collection v = Some xs"
  by (auto simp: JSON_stringify_def as_collection_def
        those_map_Some [of as_series series_json, OF as_series_series_json])

text \<open>
  C6. When the write fails, \<open>saveSeries\<close> leaves the whole state as it was, the slot and
  the collection in memory included, and shows the alert. When the write succeeds, the
  collection in memory is the argument and the slot holds its text, which reads back as
  exactly the argument.
\<close>

theorem saveSeries_all_or_nothing:
  "saveSeries False newSeries st = (st, [Alert ''Error'' ''Failed to save series. Please try again.''])
   \<and> saveSeries True newSeries st
       = (st\<lparr>storage := Some (JSON_stringify newSeries), series := newSeries\<rparr>, [])
   \<and> loadSeries (storage (fst (saveSeries True newSeries st)))
       = Installed (JArray (map series_json newSeries))
   \<and> as_collection (JArray (map series_json newSeries)) = Some newSeries"
  using as_collection_stringify [of newSeries]
  by (simp add: saveSeries_def loadSeries_def JSON_stringify_def)

text \<open>
  C7 as stated fails: a stored text that is JSON but not a collection of series (a number,
  or an array of objects without \<open>name\<close> and \<open>steps\<close>) is installed as the collection,
  without any alert.
\<close>

theorem loadSeries_installs_unchecked_counterexample:
  "loadSeries (Some (JsonText (JNumber 42))) = Installed (JNumber 42)
   \<and> as_collection (JNumber 42) = None
   \<and> loadSeries (Some (JsonText (JArray [JObject [(''id'', JString ''1'')]])))
        = Installed (JArray [JObject [(''id'', JString ''1'')]])
   \<and> as_collection (JArray [JObject [(''id'', JString ''1'')]]) = None"
  by (simp add: loadSeries_def as_collection_def as_series_def)

text \<open>
  C7, amended. With an empty slot, or an empty text, \<open>loadSeries\<close> sets nothing: the
  collection stays as it is, empty at mount. For a text that \<open>JSON.parse\<close> rejects it shows
  the alert and sets nothing. Every text that parses is installed as parsed, unchecked; what
  \<open>saveSeries\<close> wrote reads back as the saved collection.
\<close>

theorem loadSeries_outcomes:
  "loadSeries None = Untouched
   \<and> loadSeries (Some (OtherText [])) = Untouched
   \<and> (s \<noteq> [] \<longrightarrow>
        loadSeries (Some (OtherText s))
          = Failed [Alert ''Error'' ''Failed to load series. Please restart the app.''])
   \<and> loadSeries (Some (JsonText v)) = Installed v
   \<and> loadSeries (Some (JSON_stringify xs)) = Installed (JArray (map series_json xs))
   \<and> as_collection (JArray (map series_json xs)) = Some xs"
  using as_collection_stringify [of xs]
  by (simp add: loadSeries_def JSON_stringify_def)

theorem loadSeries_outcomes_witness:
  "''{not json'' \<noteq> []
   \<and> loadSeries (Some (OtherText ''{not json''))
       = Failed [Alert ''Error'' ''Failed to load series. Please restart the app.'']"
  using loadSeries_outcomes [of "''{not json''"]
  by simp

section \<open>The editor and the invariants of a draft\<close>

text \<open>
  C8 as stated fails: a supplied sequence that repeats one step and omits the other is
  installed as the steps of the draft; nothing is rejected.
\<close>

theorem reorder_unvalidated_counterexample:
  "map_option series_steps (currentSeries pomodoroEditing)
     = Some [\<lparr>step_id = ''2'', step_duration = 1500000, step_name = ''Work''\<rparr>,
             \<lparr>step_id = ''3'', step_duration = 300000, step_name = ''Break''\<rparr>]
   \<and> map_option series_steps
        (currentSeries
           (handleReorderSteps
              [\<lparr>step_id = ''2'', step_duration = 1500000, step_name = ''Work''\<rparr>,
               \<lparr>step_id = ''2'', step_duration = 1500000, step_name = ''Work''\<rparr>]
              [2, 2] pomodoroEditing))
     = Some [\<lparr>step_id = ''2'', step_duration = 1500000, step_name = ''Work''\<rparr>,
             \<lparr>step_id = ''2'', step_duration = 1500000, step_name = ''Work''\<rparr>]"
  by (simp add: pomodoroEditing_def pomodoro_def handleEditSeries_def handleReorderSteps_def
        saveSeries_def initialScreen_def)

text \<open>
  C8, amended. \<open>handleReorderSteps\<close> validates nothing: for every draft and every supplied
  sequence, a permutation of the draft's steps or not, the draft becomes a new series object
  whose steps are exactly the supplied sequence, and nothing else changes.
\<close>

theorem reorder_installs_supplied_sequence:
  "currentSeries st = Some cs \<Longrightarrow>
     handleReorderSteps steps addrs st
       = st\<lparr>currentSeries := Some (cs\<lparr>series_steps := steps\<rparr>),
            currentSeriesAt := \<lparr>series_at = freshAddr st, steps_at = addrs\<rparr>\<rparr>
     \<and> map_option series_steps (currentSeries (handleReorderSteps steps addrs st)) = Some steps"
  by (simp add: handleReorderSteps_def)

theorem reorder_installs_supplied_sequence_witness:
  "currentSeries pomodoroEditing = Some pomodoro
   \<and> map_option series_steps
        (currentSeries (handleReorderSteps (rev (series_steps pomodoro)) [3, 2] pomodoroEditing))
     = Some [\<lparr>step_id = ''3'', step_duration = 300000, step_name = ''Break''\<rparr>,
             \<lparr>step_id = ''2'', step_duration = 1500000, step_name = ''Work''\<rparr>]"
  using reorder_installs_supplied_sequence
    [of pomodoroEditing pomodoro "rev (series_steps pomodoro)" "[3, 2]"]
  by (simp add: pomodoroEditing_def pomodoro_def handleEditSeries_def)

lemma digits_not_Nil: "digits n \<noteq> []"
  by (subst digits.simps) simp

lemma digit_char_inj:
  "a < 10 \<Longrightarrow> b < 10 \<Longrightarrow> ''0123456789'' ! a = ''0123456789'' ! b \<Longrightarrow> a = b"
  by (subst (asm) nth_eq_iff_index_eq) simp_all

lemma digits_inj: "digits n = digits m \<Longrightarrow> n = m"
proof (induction n arbitrary: m rule: digits.induct)
  case (1 n)
  show ?case
  proof (cases "n < 10")
    case True
    show ?thesis
    proof (cases "m < 10")
      case m: True
      from "1.prems" True m have "''0123456789'' ! n = ''0123456789'' ! m"
        by (simp add: digits.simps [of n] digits.simps [of m])
      with True m show ?thesis by (intro digit_char_inj)
    next
      case False
      with "1.prems" True digits_not_Nil [of "m div 10"] show ?thesis
        by (simp add: digits.simps [of n] digits.simps [of m])
    qed
  next
    case False
    show ?thesis
    proof (cases "m < 10")
      case True
      with "1.prems" False digits_not_Nil [of "n div 10"] show ?thesis
        by (simp add: digits.simps [of n] digits.simps [of m])
    next
      case m: False
      from "1.prems" False m have e: "digits (n div 10) = digits (m div 10)"
        and c: "''0123456789'' ! (n mod 10) = ''0123456789'' ! (m mod 10)"
        by (simp_all add: digits.simps [of n] digits.simps [of m])
      from "1.IH" [OF False e] have "n div 10 = m div 10" .
      moreover from c have "n mod 10 = m mod 10" by (intro digit_char_inj) simp_all
      ultimately show ?thesis by (metis div_mult_mod_eq)
    qed
  qed
qed

lemma digits_chars: "set (digits n) \<subseteq> set ''0123456789''"
proof (induction n rule: digits.induct)
  case (1 n)
  show ?case
  proof (cases "n < 10")
    case True
    then have "''0123456789'' ! n \<in> set ''0123456789''" by (intro nth_mem) simp
    with True show ?thesis by (subst digits.simps) simp
  next
    case False
    have "''0123456789'' ! (n mod 10) \<in> set ''0123456789''" by (intro nth_mem) simp
    with False "1.IH" show ?thesis by (subst digits.simps) simp
  qed
qed

lemma digits_no_minus: "digits n \<noteq> CHR ''-'' # cs"
proof
  assume "digits n = CHR ''-'' # cs"
  then have "CHR ''-'' \<in> set (digits n)" by simp
  with digits_chars [of n] show False by auto
qed

lemma toString_inj: "toString i = toString j \<Longrightarrow> i = j"
  using digits_no_minus [of "nat i"] digits_no_minus [of "nat j"]
  by (auto simp: toString_def split: if_splits dest!: digits_inj) (metis digits_no_minus)+

lemma draftSteps_simps:
  "currentSeries st = Some cs \<Longrightarrow> draftSteps (handleAddStep now st) = series_steps cs @
       [\<lparr>step_id = toString now, step_duration = 60000,
         step_name = ''Step '' @ toString (int (length (series_steps cs)) + 1)\<rparr>]"
  "currentSeries st = Some cs \<Longrightarrow> draftSteps (fst (deleteStepOnPress ok stepId st))
       = filter (\<lambda>s. step_id s \<noteq> stepId) (series_steps cs)"
  "currentSeries st = Some cs \<Longrightarrow> draftSteps (renameOnChangeText text st) = series_steps cs"
  "currentSeries st = Some cs \<Longrightarrow> draftSteps (handleUpdateStep stepId updates st)
       = map (\<lambda>step. if step_id step = stepId then spread step updates else step) (series_steps cs)"
  "currentSeries st = Some cs \<Longrightarrow> draftSteps (handleReorderSteps steps addrs st) = steps"
  "currentSeries st = Some cs \<Longrightarrow> draftSteps st = series_steps cs"
  by (simp_all add: draftSteps_def handleAddStep_def deleteStepOnPress_def saveSeries_def
        renameOnChangeText_def handleUpdateStep_def handleReorderSteps_def Let_def)

lemma draftSteps_None:
  "currentSeries st = None \<Longrightarrow> draftSteps (handleAddStep now st) = []"
  "currentSeries st = None \<Longrightarrow> draftSteps (fst (deleteStepOnPress ok stepId st)) = []"
  "currentSeries st = None \<Longrightarrow> draftSteps (renameOnChangeText text st) = []"
  "currentSeries st = None \<Longrightarrow> draftSteps (handleUpdateStep stepId updates st) = []"
  "currentSeries st = None \<Longrightarrow> draftSteps (handleReorderSteps steps addrs st) = []"
  "currentSeries st = None \<Longrightarrow> draftSteps st = []"
  by (simp_all add: draftSteps_def handleAddStep_def deleteStepOnPress_def
        renameOnChangeText_def handleUpdateStep_def handleReorderSteps_def)

text \<open>
  C9 as stated fails: the id of a new step is the text of the clock reading, so two steps
  added at the same reading share their id.
\<close>

theorem addStep_same_clock_reading_counterexample:
  "distinct (map step_id (draftSteps pomodoroEditing))
   \<and> distinct (map step_id (draftSteps (handleAddStep 1700000000000 pomodoroEditing)))
   \<and> map step_id (draftSteps (handleAddStep 1700000000000 (handleAddStep 1700000000000 pomodoroEditing)))
       = [''2'', ''3'', ''1700000000000'', ''1700000000000'']
   \<and> \<not> distinct (map step_id
         (draftSteps (handleAddStep 1700000000000 (handleAddStep 1700000000000 pomodoroEditing))))"
  by (simp add: draftSteps_def pomodoroEditing_def pomodoro_def handleEditSeries_def handleAddStep_def
        toString_def digits.simps)

lemma map_step_id_update:
  "upd_id updates = None \<Longrightarrow>
     map step_id (map (\<lambda>step. if step_id step = stepId then spread step updates else step) xs)
       = map step_id xs"
  by (induction xs) (simp_all add: spread_def)

text \<open>
  C9, amended. On a draft with pairwise distinct step ids: \<open>handleAddStep\<close> appends one
  step with the text of the clock reading as id, duration 60000 and name \<open>Step N\<close>, \<open>N\<close>
  the number of steps plus one; the ids stay distinct exactly when that text is not yet an id
  of the draft, which holds when every id of the draft is the text of another clock reading.
  Removing a step and renaming keep the ids distinct; \<open>handleUpdateStep\<close> keeps them when the
  partial fields carry no id; after \<open>handleReorderSteps\<close> they are distinct exactly when the
  supplied steps have distinct ids.
\<close>

theorem step_ids_stay_unique:
  assumes cs: "currentSeries st = Some cs" and d: "distinct (map step_id (draftSteps st))"
  shows "draftSteps (handleAddStep now st) = draftSteps st @
           [\<lparr>step_id = toString now, step_duration = 60000,
             step_name = ''Step '' @ toString (int (length (draftSteps st)) + 1)\<rparr>]
       \<and> (distinct (map step_id (draftSteps (handleAddStep now st)))
            \<longleftrightarrow> toString now \<notin> set (map step_id (draftSteps st)))
       \<and> ((\<forall>i \<in> set (map step_id (draftSteps st)). \<exists>t. t \<noteq> now \<and> i = toString t)
            \<longrightarrow> distinct (map step_id (draftSteps (handleAddStep now st))))
       \<and> distinct (map step_id (draftSteps (fst (deleteStepOnPress ok stepId st))))
       \<and> distinct (map step_id (draftSteps (renameOnChangeText text st)))
       \<and> (upd_id updates = None
            \<longrightarrow> distinct (map step_id (draftSteps (handleUpdateStep stepId updates st))))
       \<and> (distinct (map step_id (draftSteps (handleReorderSteps steps addrs st)))
            \<longleftrightarrow> distinct (map step_id steps))"
proof -
  note s = draftSteps_simps [OF cs]
  have a: "draftSteps (handleAddStep now st) = draftSteps st @
           [\<lparr>step_id = toString now, step_duration = 60000,
             step_name = ''Step '' @ toString (int (length (draftSteps st)) + 1)\<rparr>]"
    by (simp add: s)
  have b: "distinct (map step_id (draftSteps (handleAddStep now st)))
            \<longleftrightarrow> toString now \<notin> set (map step_id (draftSteps st))"
    using d by (simp add: a)
  have c: "(\<forall>i \<in> set (map step_id (draftSteps st)). \<exists>t. t \<noteq> now \<and> i = toString t)
            \<longrightarrow> distinct (map step_id (draftSteps (handleAddStep now st)))"
    unfolding b using toString_inj by blast
  have e: "distinct (map step_id (draftSteps (fst (deleteStepOnPress ok stepId st))))"
    using d by (simp add: s distinct_map_filter)
  have f: "distinct (map step_id (draftSteps (renameOnChangeText text st)))"
    using d by (simp add: s)
  have g: "upd_id updates = None
            \<longrightarrow> distinct (map step_id (draftSteps (handleUpdateStep stepId updates st)))"
    using d by (simp add: s map_step_id_update del: map_map)
  have h: "distinct (map step_id (draftSteps (handleReorderSteps steps addrs st)))
            \<longleftrightarrow> distinct (map step_id steps)"
    by (simp add: s)
  from a b c e f g h show ?thesis by blast
qed

theorem step_ids_stay_unique_witness:
  "currentSeries pomodoroEditing = Some pomodoro
   \<and> distinct (map step_id (draftSteps pomodoroEditing))
   \<and> map step_id (draftSteps pomodoroEditing) = [toString 2, toString 3]
   \<and> (2::int) \<noteq> 1700000000000 \<and> (3::int) \<noteq> 1700000000000
   \<and> toString 1700000000000 \<notin> set (map step_id (draftSteps pomodoroEditing))
   \<and> upd_id \<lparr>upd_id = None, upd_duration = None, upd_name = Some ''Focus''\<rparr> = None
   \<and> distinct (map step_id (draftSteps (handleAddStep 1700000000000 pomodoroEditing)))
   \<and> distinct (map step_id (draftSteps
        (handleUpdateStep ''2'' \<lparr>upd_id = None, upd_duration = None, upd_name = Some ''Focus''\<rparr>
           pomodoroEditing)))"
  using step_ids_stay_unique
    [of pomodoroEditing pomodoro 1700000000000 True "''2''" "''x''"
        "\<lparr>upd_id = None, upd_duration = None, upd_name = Some ''Focus''\<rparr>" "[]" "[]"]
  by (simp add: draftSteps_def pomodoroEditing_def pomodoro_def handleEditSeries_def
        toString_def digits.simps)

lemma duration_inputs_nonnegative:
  assumes ok: "list_all (\<lambda>x. 0 \<le> step_duration x) (draftSteps st)"
    and p: "case parsed of None \<Rightarrow> True | Some n \<Rightarrow> 0 \<le> n"
    and i: "0 \<le> step_duration item"
  shows "list_all (\<lambda>x. 0 \<le> step_duration x) (draftSteps (minutesOnChangeText parsed item st))"
    and "list_all (\<lambda>x. 0 \<le> step_duration x) (draftSteps (secondsOnChangeText parsed item st))"
proof -
  from i have "0 \<le> step_duration item div 60000" by simp
  with ok p show
    "list_all (\<lambda>x. 0 \<le> step_duration x) (draftSteps (minutesOnChangeText parsed item st))"
    "list_all (\<lambda>x. 0 \<le> step_duration x) (draftSteps (secondsOnChangeText parsed item st))"
    by (auto simp: minutesOnChangeText_def secondsOnChangeText_def handleUpdateStep_def
          draftSteps_def spread_def list_all_iff Let_def split: option.splits)
qed

text \<open>
  C10 as stated fails: \<open>handleUpdateStep\<close> installs the duration it is given, also a
  negative one, and the minutes input passes a negative number on.
\<close>

theorem updateStep_negative_duration_counterexample:
  "list_all (\<lambda>x. 0 \<le> step_duration x) (draftSteps pomodoroEditing)
   \<and> map step_duration (draftSteps
        (handleUpdateStep ''2'' \<lparr>upd_id = None, upd_duration = Some (- 60000), upd_name = None\<rparr>
           pomodoroEditing))
       = [- 60000, 300000]
   \<and> map step_duration (draftSteps
        (minutesOnChangeText (Some (- 1))
           \<lparr>step_id = ''2'', step_duration = 1500000, step_name = ''Work''\<rparr> pomodoroEditing))
       = [- 60000, 300000]"
  by (simp add: draftSteps_def pomodoroEditing_def pomodoro_def handleEditSeries_def
        handleUpdateStep_def minutesOnChangeText_def spread_def)

text \<open>
  C10, amended. On a draft without negative durations: adding a step, removing a step and
  renaming leave it without negative durations; \<open>handleUpdateStep\<close> does so when the partial
  fields carry no duration or a duration that is not negative; \<open>handleReorderSteps\<close> does so
  when no supplied step has a negative duration.
\<close>

theorem durations_stay_nonnegative:
  assumes ok: "list_all (\<lambda>x. 0 \<le> step_duration x) (draftSteps st)"
  shows "list_all (\<lambda>x. 0 \<le> step_duration x) (draftSteps (handleAddStep now st))
       \<and> list_all (\<lambda>x. 0 \<le> step_duration x) (draftSteps (fst (deleteStepOnPress w stepId st)))
       \<and> list_all (\<lambda>x. 0 \<le> step_duration x) (draftSteps (renameOnChangeText text st))
       \<and> ((case upd_duration updates of None \<Rightarrow> True | Some d \<Rightarrow> 0 \<le> d) \<longrightarrow>
            list_all (\<lambda>x. 0 \<le> step_duration x) (draftSteps (handleUpdateStep stepId updates st)))
       \<and> (list_all (\<lambda>x. 0 \<le> step_duration x) steps \<longrightarrow>
            list_all (\<lambda>x. 0 \<le> step_duration x) (draftSteps (handleReorderSteps steps addrs st)))"
proof (cases "currentSeries st")
  case None
  then show ?thesis by (simp add: draftSteps_None)
next
  case (Some cs)
  note s = draftSteps_simps [OF Some]
  from ok have o: "list_all (\<lambda>x. 0 \<le> step_duration x) (series_steps cs)" by (simp add: s)
  have u: "(case upd_duration updates of None \<Rightarrow> True | Some d \<Rightarrow> 0 \<le> d) \<longrightarrow>
       list_all (\<lambda>x. 0 \<le> step_duration x)
         (map (\<lambda>step. if step_id step = stepId then spread step updates else step) (series_steps cs))"
    using o by (auto simp: list_all_iff spread_def split: option.splits)
  from o u show ?thesis
    by (simp add: s list_all_iff)
qed

theorem durations_stay_nonnegative_witness:
  "list_all (\<lambda>x. 0 \<le> step_duration x) (draftSteps pomodoroEditing)
   \<and> (case upd_duration \<lparr>upd_id = None, upd_duration = Some 90000, upd_name = None\<rparr> of
        None \<Rightarrow> True | Some d \<Rightarrow> 0 \<le> d)
   \<and> list_all (\<lambda>x. 0 \<le> step_duration x) (rev (series_steps pomodoro))
   \<and> list_all (\<lambda>x. 0 \<le> step_duration x)
        (draftSteps (handleUpdateStep ''2'' \<lparr>upd_id = None, upd_duration = Some 90000, upd_name = None\<rparr>
           pomodoroEditing))
   \<and> list_all (\<lambda>x. 0 \<le> step_duration x)
        (draftSteps (handleReorderSteps (rev (series_steps pomodoro)) [3, 2] pomodoroEditing))"
  using durations_stay_nonnegative
    [of pomodoroEditing 0 True "''2''" "''x''"
        "\<lparr>upd_id = None, upd_duration = Some 90000, upd_name = None\<rparr>"
        "rev (series_steps pomodoro)" "[3, 2]"]
  by (simp add: draftSteps_def pomodoroEditing_def pomodoro_def handleEditSeries_def)

end
